theory Spec2Isabelle
  imports Main "HOL-Library.AList"
begin

section \<open>The broadcast server (server/main.go)\<close>

subsection \<open>Data\<close>

text \<open>
  A server-side stream is identified by the address of its stream object, the value that
  \<^verbatim>\<open>%p\<close> prints. \<^verbatim>\<open>pb.ChatMessage\<close> carries the three fields the server reads.
\<close>

type_synonym stream = nat

record ChatMessage =
  User :: string
  Text :: string
  RecipientUser :: string

record connection =
  stream :: stream
  user :: string

text \<open>
  \<^verbatim>\<open>connections map[string]connection\<close>: a Go map, kept as an association list with
  \<open>AList.update\<close> for a store and \<open>AList.delete\<close> for \<^verbatim>\<open>delete\<close>. The order of the
  list stands for the (unspecified) order in which \<^verbatim>\<open>range\<close> visits the entries.
\<close>

type_synonym connections = "(string \<times> connection) list"

definition NewChatServer :: connections where
  "NewChatServer = []"

text \<open>
  What a run of the server does, in program order: the operations on the mutex and on the
  map, a \<^verbatim>\<open>stream.Send\<close>, and the start of a goroutine (\<open>Go e\<close>: \<open>e\<close> happens in a
  goroutine of its own).
\<close>

datatype event =
    Lock | Unlock | RLock | RUnlock
  | MapStore string connection
  | MapDelete string
  | Send stream ChatMessage
  | Go event

text \<open>The result of one \<^verbatim>\<open>stream.Recv()\<close>: a message, \<^verbatim>\<open>io.EOF\<close>, or another error.\<close>

datatype recv = Msg ChatMessage | EOF | RecvError

datatype codes = InvalidArgument

text \<open>
  How far \<^verbatim>\<open>RealtimeChat\<close> got on the input it was given: it returned (\<open>None\<close> for
  \<^verbatim>\<open>nil\<close>, or a status error), or it is blocked in \<^verbatim>\<open>Recv\<close> waiting for more.
\<close>

datatype outcome = Returned "(codes \<times> string) option" | Waiting

subsection \<open>Sending\<close>

text \<open>\<^verbatim>\<open>sendRoutine\<close>: one \<^verbatim>\<open>stream.Send(msg)\<close>; a failure is logged under \<open>username\<close> only.\<close>

definition sendRoutine :: "stream \<Rightarrow> ChatMessage \<Rightarrow> string \<Rightarrow> event" where
  "sendRoutine st msg username = Send st msg"

fun sendToUser_range ::
  "connections \<Rightarrow> string \<Rightarrow> ChatMessage \<Rightarrow> bool \<Rightarrow> bool \<times> event list" where
  "sendToUser_range [] username msg found = (found, [])"
| "sendToUser_range ((cid, conn) # rest) username msg found =
     (if user conn = username
      then (let (found', tr) = sendToUser_range rest username msg True
            in (found', Go (sendRoutine (stream conn) msg username) # tr))
      else sendToUser_range rest username msg found)"

definition sendToUser :: "connections \<Rightarrow> string \<Rightarrow> ChatMessage \<Rightarrow> bool \<times> event list" where
  "sendToUser s username msg =
     (let (found, tr) = sendToUser_range s username msg False
      in (found, [RLock] @ tr @ [RUnlock]))"

fun broadcast_range :: "connections \<Rightarrow> ChatMessage \<Rightarrow> string \<Rightarrow> event list" where
  "broadcast_range [] msg excludeID = []"
| "broadcast_range ((cid, conn) # rest) msg excludeID =
     (if cid = excludeID then broadcast_range rest msg excludeID
      else Go (sendRoutine (stream conn) msg (user conn)) # broadcast_range rest msg excludeID)"

definition broadcast :: "connections \<Rightarrow> ChatMessage \<Rightarrow> string \<Rightarrow> event list" where
  "broadcast s msg excludeID = [RLock] @ broadcast_range s msg excludeID @ [RUnlock]"

subsection \<open>The session\<close>

text \<open>\<^verbatim>\<open>%p\<close> of a pointer: \<^verbatim>\<open>0x\<close> and the address in lower-case hexadecimal.\<close>

definition hexdigit :: "nat \<Rightarrow> char" where
  "hexdigit d = ''0123456789abcdef'' ! (d mod 16)"

function hex :: "nat \<Rightarrow> string" where
  "hex n = (if n < 16 then [hexdigit n] else hex (n div 16) @ [hexdigit (n mod 16)])"
  by pat_completeness auto
termination
  by (relation "measure (\<lambda>n. n)") auto

declare hex.simps [simp del]

definition Sprintf_p :: "stream \<Rightarrow> string" where
  "Sprintf_p st = ''0x'' @ hex st"

text \<open>\<^verbatim>\<open>fmt.Sprintf("%s_%p", userName, stream)\<close>\<close>

definition clientID_of :: "string \<Rightarrow> stream \<Rightarrow> string" where
  "clientID_of userName st = userName @ ''_'' @ Sprintf_p st"

definition joinMsg :: "string \<Rightarrow> ChatMessage" where
  "joinMsg userName =
     \<lparr>User = ''System'', Text = userName @ '' has joined the chat'', RecipientUser = ''''\<rparr>"

definition leaveMsg :: "string \<Rightarrow> ChatMessage" where
  "leaveMsg userName =
     \<lparr>User = ''System'', Text = userName @ '' has left the chat'', RecipientUser = ''''\<rparr>"

definition systemMsg :: "string \<Rightarrow> ChatMessage" where
  "systemMsg recipient =
     \<lparr>User = ''System'',
      Text = ''User '' @ [CHR 0x27] @ recipient @ [CHR 0x27] @ '' not found or is offline.'',
      RecipientUser = ''''\<rparr>"

text \<open>Steps 3 and 4 of \<^verbatim>\<open>RealtimeChat\<close>: store the connection under the write lock, then
  broadcast the join notice to everyone else.\<close>

definition register_conn ::
  "connections \<Rightarrow> stream \<Rightarrow> string \<Rightarrow> connections \<times> event list" where
  "register_conn s st userName =
     (let clientID = clientID_of userName st;
          conn = \<lparr>stream = st, user = userName\<rparr>;
          s' = AList.update clientID conn s
      in (s', [Lock, MapStore clientID conn, Unlock] @ broadcast s' (joinMsg userName) clientID))"

text \<open>The body of the receive loop for one received message.\<close>

definition handle_msg :: "connections \<Rightarrow> stream \<Rightarrow> string \<Rightarrow> ChatMessage \<Rightarrow> event list" where
  "handle_msg s st clientID msg =
     (if RecipientUser msg = '''' then broadcast s msg clientID
      else (let (found, tr) = sendToUser s (RecipientUser msg) msg
            in tr @ [Send st msg] @
               (if \<not> found then [Send st (systemMsg (RecipientUser msg))] else [])))"

text \<open>Step 5, the receive loop: the flag says whether the loop was left (\<^verbatim>\<open>break\<close>) or
  is still blocked in \<^verbatim>\<open>Recv\<close> when the input ends.\<close>

fun recv_loop :: "connections \<Rightarrow> stream \<Rightarrow> string \<Rightarrow> recv list \<Rightarrow> bool \<times> event list" where
  "recv_loop s st clientID [] = (False, [])"
| "recv_loop s st clientID (EOF # rest) = (True, [])"
| "recv_loop s st clientID (RecvError # rest) = (True, [])"
| "recv_loop s st clientID (Msg msg # rest) =
     (let (left, tr) = recv_loop s st clientID rest
      in (left, handle_msg s st clientID msg @ tr))"

text \<open>Steps 7 and 8: delete the connection under the write lock, then broadcast the leave
  notice with \<^verbatim>\<open>excludeID = ""\<close>.\<close>

definition close_conn :: "connections \<Rightarrow> string \<Rightarrow> string \<Rightarrow> connections \<times> event list" where
  "close_conn s clientID userName =
     (let s' = AList.delete clientID s
      in (s', [Lock, MapDelete clientID, Unlock] @ broadcast s' (leaveMsg userName) ''''))"

text \<open>
  \<^verbatim>\<open>RealtimeChat\<close> on the results of the successive \<^verbatim>\<open>Recv\<close> calls of one stream, with no
  other session changing the map meanwhile: the outcome, the map afterwards and the events.
\<close>

definition RealtimeChat ::
  "connections \<Rightarrow> stream \<Rightarrow> recv list \<Rightarrow> outcome \<times> connections \<times> event list" where
  "RealtimeChat s st inputs =
     (case inputs of
        [] \<Rightarrow> (Waiting, s, [])
      | EOF # rest \<Rightarrow>
          (Returned (Some (InvalidArgument, ''First message must contain user info'')), s, [])
      | RecvError # rest \<Rightarrow>
          (Returned (Some (InvalidArgument, ''First message must contain user info'')), s, [])
      | Msg firstMsg # rest \<Rightarrow>
          (let userName = User firstMsg in
           if userName = ''''
           then (Returned (Some (InvalidArgument, ''Username cannot be empty'')), s, [])
           else (let clientID = clientID_of userName st;
                     (s1, tr1) = register_conn s st userName;
                     (left, tr2) = recv_loop s1 st clientID rest
                 in if \<not> left then (Waiting, s1, tr1 @ tr2)
                    else (let (s2, tr3) = close_conn s1 clientID userName
                          in (Returned None, s2, tr1 @ tr2 @ tr3)))))"

subsection \<open>Reading a run\<close>

text \<open>The sends of a run, direct or in a goroutine: which stream was sent which message.\<close>

fun delivery :: "event \<Rightarrow> (stream \<times> ChatMessage) option" where
  "delivery (Send st msg) = Some (st, msg)"
| "delivery (Go e) = delivery e"
| "delivery _ = None"

fun deliveries :: "event list \<Rightarrow> (stream \<times> ChatMessage) list" where
  "deliveries [] = []"
| "deliveries (e # es) =
     (case delivery e of None \<Rightarrow> deliveries es | Some d \<Rightarrow> d # deliveries es)"

text \<open>
  Whether every change of the map in a run happens while the run holds the write lock
  (\<open>w\<close>: it holds it now), and no send of the run's own while it holds a lock at all
  (\<open>l\<close>); a send in a goroutine is not the run's own.
\<close>

fun exclusive_stores :: "bool \<Rightarrow> bool \<Rightarrow> event list \<Rightarrow> bool" where
  "exclusive_stores w l [] = True"
| "exclusive_stores w l (Lock # es) = exclusive_stores True True es"
| "exclusive_stores w l (Unlock # es) = exclusive_stores False False es"
| "exclusive_stores w l (RLock # es) = exclusive_stores w True es"
| "exclusive_stores w l (RUnlock # es) = exclusive_stores w False es"
| "exclusive_stores w l (MapStore k c # es) = (w \<and> exclusive_stores w l es)"
| "exclusive_stores w l (MapDelete k # es) = (w \<and> exclusive_stores w l es)"
| "exclusive_stores w l (Send st m # es) = (\<not> l \<and> exclusive_stores w l es)"
| "exclusive_stores w l (Go e # es) = exclusive_stores w l es"

text \<open>
  The registries the server builds: one entry per id, one id per live stream, and every id
  is the one \<^verbatim>\<open>RealtimeChat\<close> computes from the connection it names.
\<close>

definition registry_ok :: "connections \<Rightarrow> bool" where
  "registry_ok s \<longleftrightarrow>
     distinct (map fst s) \<and> distinct (map (\<lambda>e. stream (snd e)) s) \<and>
     list_all (\<lambda>e. fst e = clientID_of (user (snd e)) (stream (snd e)) \<and> user (snd e) \<noteq> '''') s"

section \<open>The WebSocket bridge (main.go)\<close>

subsection \<open>Wire messages\<close>

text \<open>
  The bytes \<^verbatim>\<open>json.Marshal\<close> returns are kept as the JSON value they spell. A struct is
  marshalled field by field in declaration order, a \<^verbatim>\<open>map[string]interface{}\<close> with its
  keys sorted.
\<close>

datatype json =
    JString string
  | JNumber nat
  | JArray "json list"
  | JObject "(string \<times> json) list"

record WSMessage =
  Type :: string
  WSUser :: string
  WSText :: string
  WSRecipientUser :: string
  Timestamp :: string

text \<open>\<^verbatim>\<open>recipientUser\<close> is tagged \<^verbatim>\<open>omitempty\<close>.\<close>

definition Marshal :: "WSMessage \<Rightarrow> json" where
  "Marshal m =
     JObject ([(''type'', JString (Type m)), (''user'', JString (WSUser m)),
               (''text'', JString (WSText m))] @
              (if WSRecipientUser m = '''' then []
               else [(''recipientUser'', JString (WSRecipientUser m))]) @
              [(''timestamp'', JString (Timestamp m))])"


definition errorMsg :: "string \<Rightarrow> json" where
  "errorMsg message = JObject [(''text'', JString message), (''type'', JString ''error'')]"

definition userListMsg :: "string list \<Rightarrow> json" where
  "userListMsg users =
     JObject [(''type'', JString ''userList''), (''users'', JArray (map JString users))]"

definition userJoinMsg :: "string \<Rightarrow> json" where
  "userJoinMsg u = JObject [(''type'', JString ''userJoin''), (''user'', JString u)]"

subsection \<open>Channels, clients and the hub\<close>

text \<open>
  A buffered channel of marshalled messages: its buffer, its capacity and whether it
  has been closed.
\<close>

record chan =
  buf :: "json list"
  cap :: nat
  is_closed :: bool

definition make_chan :: "nat \<Rightarrow> chan" where
  "make_chan n = \<lparr>buf = [], cap = n, is_closed = False\<rparr>"

datatype panic = SendOnClosedChannel | CloseOfClosedChannel

text \<open>
  An operation completes, blocks (its goroutine waits, here for room in a channel), or
  panics.
\<close>

datatype 'a result = Done 'a | Blocked | Panic panic

text \<open>\<^verbatim>\<open>ch <- data\<close>, the blocking send.\<close>

definition chan_send :: "chan \<Rightarrow> json \<Rightarrow> chan result" where
  "chan_send ch data =
     (if is_closed ch then Panic SendOnClosedChannel
      else if length (buf ch) < cap ch then Done (ch\<lparr>buf := buf ch @ [data]\<rparr>)
      else Blocked)"

text \<open>\<^verbatim>\<open>*grpc.ClientConn\<close>: open until \<^verbatim>\<open>Close()\<close>.\<close>

datatype ClientConn = ConnOpen | ConnClosed

record WSClient =
  username :: string
  grpcConn :: "ClientConn option"
  grpcStream :: "stream option"
  send :: chan

text \<open>
  \<^verbatim>\<open>clients map[*WSClient]bool\<close>: the keys are pointers, every stored value is
  \<^verbatim>\<open>true\<close>, so the map is the list of its keys, in the (unspecified) order in which
  \<^verbatim>\<open>range\<close> visits them. \<open>mem\<close> is the store the pointers point into: the \<^verbatim>\<open>WSClient\<close>
  object at each address, which outlives its entry in the map. The queue and the gRPC
  connection of a client are reached through that client only, so they are kept in its
  record.
\<close>

record WSHub =
  clients :: "nat list"
  mem :: "nat \<Rightarrow> WSClient"

definition newWSHub :: "(nat \<Rightarrow> WSClient) \<Rightarrow> WSHub" where
  "newWSHub m = \<lparr>clients = [], mem = m\<rparr>"

text \<open>What the goroutine of \<^verbatim>\<open>run\<close> does, in program order.\<close>

datatype hub_event =
    HLock | HUnlock | HRLock | HRUnlock
  | MapInsert nat
  | MapRemove nat
  | ChanSend nat json
  | ChanClose nat
  | ConnClose nat

definition upd :: "WSHub \<Rightarrow> nat \<Rightarrow> (WSClient \<Rightarrow> WSClient) \<Rightarrow> WSHub" where
  "upd h c f = h\<lparr>mem := (mem h)(c := f (mem h c))\<rparr>"

subsection \<open>The three cases of \<^verbatim>\<open>WSHub.run\<close>\<close>

definition run_register :: "WSHub \<Rightarrow> nat \<Rightarrow> (WSHub \<times> hub_event list) result" where
  "run_register h client =
     Done (h\<lparr>clients := List.insert client (clients h)\<rparr>, [HLock, MapInsert client, HUnlock])"

definition run_unregister :: "WSHub \<Rightarrow> nat \<Rightarrow> (WSHub \<times> hub_event list) result" where
  "run_unregister h client =
     (if client \<in> set (clients h)
      then (if is_closed (send (mem h client)) then Panic CloseOfClosedChannel
            else (let h1 = h\<lparr>clients := removeAll client (clients h)\<rparr>;
                      h2 = upd h1 client (\<lambda>c. c\<lparr>send := (send c)\<lparr>is_closed := True\<rparr>\<rparr>)
                  in case grpcConn (mem h2 client) of
                       None \<Rightarrow> Done (h2, [HLock, MapRemove client, ChanClose client, HUnlock])
                     | Some conn \<Rightarrow>
                         Done (upd h2 client (\<lambda>c. c\<lparr>grpcConn := Some ConnClosed\<rparr>),
                               [HLock, MapRemove client, ChanClose client, ConnClose client,
                                HUnlock])))
      else Done (h, [HLock, HUnlock]))"

text \<open>
  The loop of the broadcast case over the keys of the map. The \<^verbatim>\<open>select\<close> sends when
  the buffer has room and takes the \<^verbatim>\<open>default\<close> branch otherwise; a send on a closed
  channel panics. Only the entry being visited is ever deleted, so the loop visits the
  keys the map had when it started.
\<close>

fun broadcast_loop ::
  "json \<Rightarrow> nat list \<Rightarrow> WSHub \<Rightarrow> hub_event list \<Rightarrow> (WSHub \<times> hub_event list) result" where
  "broadcast_loop message [] h tr = Done (h, tr)"
| "broadcast_loop message (client # rest) h tr =
     (if is_closed (send (mem h client)) then Panic SendOnClosedChannel
      else if length (buf (send (mem h client))) < cap (send (mem h client))
      then broadcast_loop message rest
             (upd h client (\<lambda>c. c\<lparr>send := (send c)\<lparr>buf := buf (send c) @ [message]\<rparr>\<rparr>))
             (tr @ [ChanSend client message])
      else if client \<in> set (clients h)
      then broadcast_loop message rest
             ((upd h client (\<lambda>c. c\<lparr>send := (send c)\<lparr>is_closed := True\<rparr>\<rparr>))
                \<lparr>clients := removeAll client (clients h)\<rparr>)
             (tr @ [ChanClose client, MapRemove client])
      else broadcast_loop message rest h tr)"

definition run_broadcast :: "WSHub \<Rightarrow> json \<Rightarrow> (WSHub \<times> hub_event list) result" where
  "run_broadcast h message =
     (case broadcast_loop message (clients h) h [HRLock] of
        Done (h', tr) \<Rightarrow> Done (h', tr @ [HRUnlock])
      | Blocked \<Rightarrow> Blocked
      | Panic p \<Rightarrow> Panic p)"

subsection \<open>Online users\<close>

fun getOnlineUsers_range :: "WSHub \<Rightarrow> nat list \<Rightarrow> string list \<Rightarrow> string list" where
  "getOnlineUsers_range h [] users = users"
| "getOnlineUsers_range h (client # rest) users =
     (if username (mem h client) \<noteq> ''''
      then getOnlineUsers_range h rest (users @ [username (mem h client)])
      else getOnlineUsers_range h rest users)"

definition getOnlineUsers :: "WSHub \<Rightarrow> string list" where
  "getOnlineUsers h = getOnlineUsers_range h (clients h) []"

text \<open>\<^verbatim>\<open>GET /api/users\<close>: the body is a \<^verbatim>\<open>gin.H\<close>, a map.\<close>

definition api_users :: "WSHub \<Rightarrow> json" where
  "api_users h =
     (let users = getOnlineUsers h
      in JObject [(''count'', JNumber (length users)), (''users'', JArray (map JString users))])"

subsection \<open>A client's own sends\<close>

definition client_send :: "WSHub \<Rightarrow> nat \<Rightarrow> json \<Rightarrow> WSHub result" where
  "client_send h c data =
     (case chan_send (send (mem h c)) data of
        Done ch \<Rightarrow> Done (upd h c (\<lambda>cl. cl\<lparr>send := ch\<rparr>))
      | Blocked \<Rightarrow> Blocked
      | Panic p \<Rightarrow> Panic p)"

definition sendError :: "WSHub \<Rightarrow> nat \<Rightarrow> string \<Rightarrow> WSHub result" where
  "sendError h c message = client_send h c (errorMsg message)"

definition sendUserList :: "WSHub \<Rightarrow> nat \<Rightarrow> WSHub result" where
  "sendUserList h c = client_send h c (userListMsg (getOnlineUsers h))"

text \<open>\<^verbatim>\<open>c.hub.broadcast <- data\<close>: the hub takes the message and runs its broadcast case.\<close>

definition broadcastUserJoin :: "WSHub \<Rightarrow> nat \<Rightarrow> WSHub result" where
  "broadcastUserJoin h c =
     (case run_broadcast h (userJoinMsg (username (mem h c))) of
        Done (h', tr) \<Rightarrow> Done h'
      | Blocked \<Rightarrow> Blocked
      | Panic p \<Rightarrow> Panic p)"

subsection \<open>Connecting, joining, chatting\<close>

text \<open>
  \<^verbatim>\<open>handleWebSocket\<close>, after a successful upgrade: a new client object at address \<open>p\<close>
  (only \<^verbatim>\<open>conn\<close>, \<^verbatim>\<open>send\<close> and \<^verbatim>\<open>hub\<close> are set, the queue holds 256), handed to the
  hub's register case.
\<close>

definition new_client :: WSClient where
  "new_client = \<lparr>username = '''', grpcConn = None, grpcStream = None, send = make_chan 256\<rparr>"

definition handleWebSocket :: "WSHub \<Rightarrow> nat \<Rightarrow> WSHub result" where
  "handleWebSocket h p =
     (case run_register (h\<lparr>mem := (mem h)(p := new_client)\<rparr>) p of
        Done (h', tr) \<Rightarrow> Done h'
      | Blocked \<Rightarrow> Blocked
      | Panic x \<Rightarrow> Panic x)"

text \<open>
  What the gRPC layer answers during a join: \<^verbatim>\<open>grpc.NewClient\<close> fails, \<^verbatim>\<open>RealtimeChat\<close>
  fails, the first \<^verbatim>\<open>Send\<close> on the new stream fails, or all three succeed.
  \<^verbatim>\<open>handleJoin\<close> is followed through to the hub's broadcast of the join notice, with no
  other goroutine (the relay it starts, a write pump) touching a queue in between.
\<close>

datatype upstream = NewClientError | RealtimeChatError | SendError stream | Joined stream

definition handleJoin :: "WSHub \<Rightarrow> nat \<Rightarrow> WSMessage \<Rightarrow> upstream \<Rightarrow> WSHub result" where
  "handleJoin h c msg up =
     (let h1 = upd h c (\<lambda>cl. cl\<lparr>username := WSUser msg\<rparr>) in
      case up of
        NewClientError \<Rightarrow> sendError h1 c ''Failed to connect to chat server''
      | RealtimeChatError \<Rightarrow>
          sendError (upd h1 c (\<lambda>cl. cl\<lparr>grpcConn := Some ConnOpen\<rparr>)) c
            ''Failed to start chat stream''
      | SendError st \<Rightarrow>
          sendError (upd h1 c (\<lambda>cl. cl\<lparr>grpcConn := Some ConnOpen, grpcStream := Some st\<rparr>)) c
            ''Failed to join chat''
      | Joined st \<Rightarrow>
          (case sendUserList
                  (upd h1 c (\<lambda>cl. cl\<lparr>grpcConn := Some ConnOpen, grpcStream := Some st\<rparr>)) c of
             Done h2 \<Rightarrow> broadcastUserJoin h2 c
           | Blocked \<Rightarrow> Blocked
           | Panic p \<Rightarrow> Panic p))"

text \<open>
  \<^verbatim>\<open>handleChat\<close>: \<open>sent\<close> says whether \<^verbatim>\<open>grpcStream.Send\<close> succeeded. The result carries
  the message that went upstream, if one did.
\<close>

definition handleChat ::
  "WSHub \<Rightarrow> nat \<Rightarrow> WSMessage \<Rightarrow> bool \<Rightarrow> (WSHub \<times> ChatMessage option) result" where
  "handleChat h c msg sent =
     (case grpcStream (mem h c) of
        None \<Rightarrow>
          (case sendError h c ''Not connected to chat server'' of
             Done h' \<Rightarrow> Done (h', None) | Blocked \<Rightarrow> Blocked | Panic p \<Rightarrow> Panic p)
      | Some st \<Rightarrow>
          (let grpcMsg = \<lparr>User = WSUser msg, Text = WSText msg,
                          RecipientUser = WSRecipientUser msg\<rparr>
           in if sent then Done (h, Some grpcMsg)
              else (case sendError h c ''Failed to send message'' of
                      Done h' \<Rightarrow> Done (h', None) | Blocked \<Rightarrow> Blocked | Panic p \<Rightarrow> Panic p)))"

text \<open>
  \<^verbatim>\<open>handleGRPCMessages\<close>, the relay, on the results of the successive \<^verbatim>\<open>Recv\<close> calls of the
  upstream stream, each with the time \<^verbatim>\<open>time.Now()\<close> gives then (already formatted).
\<close>

definition toWSMessage :: "string \<Rightarrow> ChatMessage \<Rightarrow> WSMessage" where
  "toWSMessage now msg =
     \<lparr>Type = ''chat'', WSUser = User msg, WSText = Text msg,
      WSRecipientUser = RecipientUser msg, Timestamp = now\<rparr>"

fun handleGRPCMessages :: "WSHub \<Rightarrow> nat \<Rightarrow> (recv \<times> string) list \<Rightarrow> WSHub result" where
  "handleGRPCMessages h c [] = Done h"
| "handleGRPCMessages h c ((r, now) # rest) =
     (case grpcStream (mem h c) of
        None \<Rightarrow> Done h
      | Some st \<Rightarrow>
          (case r of
             Msg msg \<Rightarrow>
               (case client_send h c (Marshal (toWSMessage now msg)) of
                  Done h' \<Rightarrow> handleGRPCMessages h' c rest
                | Blocked \<Rightarrow> Blocked
                | Panic p \<Rightarrow> Panic p)
           | EOF \<Rightarrow> Done h
           | RecvError \<Rightarrow> Done h))"

text \<open>
  The body of the loop of \<^verbatim>\<open>readPump\<close> for one frame that parsed: only \<^verbatim>\<open>join\<close> and
  \<^verbatim>\<open>chat\<close> are acted on.
\<close>

definition readPump_frame ::
  "WSHub \<Rightarrow> nat \<Rightarrow> WSMessage \<Rightarrow> upstream \<Rightarrow> bool \<Rightarrow> WSHub result" where
  "readPump_frame h c wsMsg up sent =
     (if Type wsMsg = ''join'' then handleJoin h c wsMsg up
      else if Type wsMsg = ''chat''
      then (case handleChat h c wsMsg sent of
              Done (h', m) \<Rightarrow> Done h' | Blocked \<Rightarrow> Blocked | Panic p \<Rightarrow> Panic p)
      else Done h)"

subsection \<open>Reading a run of the bridge\<close>

text \<open>The hub, and the outbound queue of client \<open>c\<close>, after an operation that completed.\<close>

definition queue_after :: "WSHub result \<Rightarrow> nat \<Rightarrow> json list" where
  "queue_after r c = (case r of Done h \<Rightarrow> buf (send (mem h c)) | _ \<Rightarrow> [])"

definition hub_after :: "(WSHub \<times> hub_event list) result \<Rightarrow> WSHub result" where
  "hub_after r = (case r of Done (h, tr) \<Rightarrow> Done h | Blocked \<Rightarrow> Blocked | Panic p \<Rightarrow> Panic p)"

definition trace_of :: "(WSHub \<times> hub_event list) result \<Rightarrow> hub_event list" where
  "trace_of r = (case r of Done (h, tr) \<Rightarrow> tr | _ \<Rightarrow> [])"

text \<open>
  Whether every change of the map in a run happens while the run holds the write lock
  (\<open>w\<close>: it holds it now).
\<close>

fun exclusive_mutations :: "bool \<Rightarrow> hub_event list \<Rightarrow> bool" where
  "exclusive_mutations w [] = True"
| "exclusive_mutations w (HLock # es) = exclusive_mutations True es"
| "exclusive_mutations w (HUnlock # es) = exclusive_mutations False es"
| "exclusive_mutations w (MapInsert c # es) = (w \<and> exclusive_mutations w es)"
| "exclusive_mutations w (MapRemove c # es) = (w \<and> exclusive_mutations w es)"
| "exclusive_mutations w (e # es) = exclusive_mutations w es"

text \<open>
  The hubs \<^verbatim>\<open>run\<close> builds: no key twice, and the queue of every client in the map is
  open (a queue is closed only together with the removal of its client).
\<close>

definition hub_ok :: "WSHub \<Rightarrow> bool" where
  "hub_ok h \<longleftrightarrow> distinct (clients h) \<and> list_all (\<lambda>c. \<not> is_closed (send (mem h c))) (clients h)"

definition has_room :: "WSClient \<Rightarrow> bool" where
  "has_room c \<longleftrightarrow> length (buf (send c)) < cap (send c)"

section \<open>Example states\<close>

text \<open>Two sessions on the server: user A on the stream at address 1, user B on 2.\<close>

definition reg_AB :: connections where
  "reg_AB = [(''A_0x1'', \<lparr>stream = 1, user = ''A''\<rparr>), (''B_0x2'', \<lparr>stream = 2, user = ''B''\<rparr>)]"

definition hi_from_A :: ChatMessage where
  "hi_from_A = \<lparr>User = ''A'', Text = ''hi'', RecipientUser = ''''\<rparr>"


definition x_to_C :: ChatMessage where
  "x_to_C = \<lparr>User = ''A'', Text = ''x'', RecipientUser = ''C''\<rparr>"

text \<open>
  Two clients on the bridge: the one at address 1 has connected and not joined, the one
  at address 2 has joined as B over the upstream stream 7.
\<close>

definition client_B :: WSClient where
  "client_B = \<lparr>username = ''B'', grpcConn = Some ConnOpen, grpcStream = Some 7,
               send = make_chan 256\<rparr>"

definition hub_AB :: WSHub where
  "hub_AB = \<lparr>clients = [1, 2], mem = (\<lambda>p. new_client)(2 := client_B)\<rparr>"


text \<open>
  A queue with 256 messages waiting, and two hubs with one client each: the joined client
  B with such a queue, and a client that has not joined with such a queue.
\<close>

definition full_chan :: chan where
  "full_chan = \<lparr>buf = replicate 256 (userJoinMsg ''Z''), cap = 256, is_closed = False\<rparr>"

definition hub_B_full :: WSHub where
  "hub_B_full = \<lparr>clients = [2], mem = (\<lambda>p. new_client)(2 := client_B\<lparr>send := full_chan\<rparr>)\<rparr>"

definition hub_new_full :: WSHub where
  "hub_new_full = \<lparr>clients = [1], mem = (\<lambda>p. new_client)(1 := new_client\<lparr>send := full_chan\<rparr>)\<rparr>"

section \<open>Properties of the broadcast server\<close>

subsection \<open>Reading deliveries off a run\<close>

lemma deliveries_append: "deliveries (xs @ ys) = deliveries xs @ deliveries ys"
  by (induction xs) (auto split: option.splits)

lemma deliveries_broadcast_range:
  "deliveries (broadcast_range s msg ex) =
     map (\<lambda>e. (stream (snd e), msg)) (filter (\<lambda>e. fst e \<noteq> ex) s)"
  by (induction s msg ex rule: broadcast_range.induct) (auto simp: sendRoutine_def)

lemma deliveries_broadcast:
  "deliveries (broadcast s msg ex) =
     map (\<lambda>e. (stream (snd e), msg)) (filter (\<lambda>e. fst e \<noteq> ex) s)"
  by (simp add: broadcast_def deliveries_append deliveries_broadcast_range)





subsection \<open>Connection ids\<close>

lemma hexdigit_inj:
  assumes "a < 16" "b < 16" "hexdigit a = hexdigit b"
  shows "a = b"
proof -
  have d: "distinct ''0123456789abcdef''" by simp
  have l: "length ''0123456789abcdef'' = 16" by simp
  from assms have "''0123456789abcdef'' ! a = ''0123456789abcdef'' ! b"
    by (simp add: hexdigit_def)
  with d l assms(1,2) show ?thesis
    by (metis nth_eq_iff_index_eq)
qed

lemma hexdigit_no_underscore: "hexdigit d \<noteq> CHR ''_''"
proof -
  have "d mod 16 < 16" by simp
  then have "''0123456789abcdef'' ! (d mod 16) \<in> set ''0123456789abcdef''"
    by (intro nth_mem) simp
  then show ?thesis by (auto simp: hexdigit_def)
qed

lemma hex_nonempty: "hex n \<noteq> []"
  by (subst hex.simps) simp

lemma hex_no_underscore: "CHR ''_'' \<notin> set (hex n)"
proof (induction n rule: hex.induct)
  case (1 n)
  show ?case
  proof (cases "n < 16")
    case True
    then show ?thesis using hexdigit_no_underscore [of n] by (subst hex.simps) auto
  next
    case False
    then show ?thesis
      using 1 hexdigit_no_underscore [of "n mod 16"] by (subst hex.simps) auto
  qed
qed

lemma hex_inj: "hex n = hex m \<Longrightarrow> n = m"
proof (induction n arbitrary: m rule: hex.induct)
  case (1 n)
  show ?case
  proof (cases "n < 16")
    case n: True
    show ?thesis
    proof (cases "m < 16")
      case True
      with n "1.prems" have "hexdigit n = hexdigit m" by (simp add: hex.simps)
      with n True show ?thesis by (rule hexdigit_inj)
    next
      case False
      with n "1.prems" have "[hexdigit n] = hex (m div 16) @ [hexdigit (m mod 16)]"
        by (simp add: hex.simps)
      then have "hex (m div 16) = []" by simp
      then show ?thesis using hex_nonempty by simp
    qed
  next
    case n: False
    show ?thesis
    proof (cases "m < 16")
      case True
      with n "1.prems" have "hex (n div 16) @ [hexdigit (n mod 16)] = [hexdigit m]"
        by (simp add: hex.simps)
      then have "hex (n div 16) = []" by simp
      then show ?thesis using hex_nonempty by simp
    next
      case False
      with n "1.prems" have e: "hex (n div 16) @ [hexdigit (n mod 16)] = hex (m div 16) @ [hexdigit (m mod 16)]"
        by (simp add: hex.simps)
      then have "hex (n div 16) = hex (m div 16)" and d: "hexdigit (n mod 16) = hexdigit (m mod 16)"
        by simp_all
      with "1.IH" n have "n div 16 = m div 16" by simp
      moreover have "n mod 16 = m mod 16"
        using d by (intro hexdigit_inj) simp_all
      ultimately show ?thesis by (metis div_mult_mod_eq)
    qed
  qed
qed

lemma takeWhile_upto:
  "x \<notin> set a \<Longrightarrow> takeWhile (\<lambda>c. c \<noteq> x) (a @ x # b) = a"
  by (induction a) auto

lemma split_at_last:
  assumes "x \<notin> set q" "x \<notin> set q'" "p @ x # q = p' @ x # q'"
  shows "p = p' \<and> q = q'"
proof -
  have "rev q @ x # rev p = rev q' @ x # rev p'"
    using arg_cong [OF assms(3), of rev] by simp
  moreover have "takeWhile (\<lambda>c. c \<noteq> x) (rev q @ x # rev p) = rev q"
    using assms(1) by (simp add: takeWhile_upto)
  moreover have "takeWhile (\<lambda>c. c \<noteq> x) (rev q' @ x # rev p') = rev q'"
    using assms(2) by (simp add: takeWhile_upto)
  ultimately have "rev q = rev q'" by simp
  then have "q = q'" by simp
  with assms(3) show ?thesis by simp
qed

lemma clientID_of_inj:
  assumes "clientID_of u st = clientID_of u' st'"
  shows "u = u' \<and> st = st'"
proof -
  have n: "CHR ''_'' \<notin> set (''0x'' @ hex st)" "CHR ''_'' \<notin> set (''0x'' @ hex st')"
    using hex_no_underscore by simp_all
  from assms have "u @ CHR ''_'' # (''0x'' @ hex st) = u' @ CHR ''_'' # (''0x'' @ hex st')"
    by (simp add: clientID_of_def Sprintf_p_def)
  from split_at_last [OF n this] have "u = u'" "hex st = hex st'" by simp_all
  then show ?thesis using hex_inj by simp
qed


subsection \<open>Registries as the server builds them\<close>

lemma registry_ok_map_of:
  "registry_ok s \<Longrightarrow> map_of s cid = Some c \<longleftrightarrow> (cid, c) \<in> set s"
  by (auto simp: registry_ok_def)

lemma registry_ok_stream_inj:
  assumes "registry_ok s" "e \<in> set s" "e' \<in> set s" "stream (snd e) = stream (snd e')"
  shows "e = e'"
proof -
  have "inj_on (\<lambda>e. stream (snd e)) (set s)"
    using assms(1) by (simp add: registry_ok_def distinct_map)
  then show ?thesis
    using assms(2-4) inj_onD [of "\<lambda>e. stream (snd e)" "set s" e e'] by simp
qed

lemma registry_ok_empty: "registry_ok NewChatServer"
  by (simp add: registry_ok_def NewChatServer_def)

lemma registry_ok_delete: "registry_ok s \<Longrightarrow> registry_ok (AList.delete k s)"
  by (simp add: registry_ok_def AList.delete_eq distinct_map_filter list_all_iff)

lemma fresh_stream_fresh_id:
  assumes "registry_ok s" "st \<notin> (\<lambda>e. stream (snd e)) ` set s"
  shows "clientID_of userName st \<notin> fst ` set s"
proof
  assume "clientID_of userName st \<in> fst ` set s"
  then obtain e where e: "e \<in> set s" "fst e = clientID_of userName st" by auto
  with assms(1) have "fst e = clientID_of (user (snd e)) (stream (snd e))"
    by (auto simp: registry_ok_def list_all_iff)
  with e have "st = stream (snd e)" using clientID_of_inj by metis
  with e assms(2) show False by auto
qed

lemma registry_ok_register:
  assumes "registry_ok s" "userName \<noteq> []" "st \<notin> (\<lambda>e. stream (snd e)) ` set s"
  shows "registry_ok (fst (register_conn s st userName))"
proof -
  have fresh: "clientID_of userName st \<notin> fst ` set s"
    by (rule fresh_stream_fresh_id [OF assms(1,3)])
  have "AList.update (clientID_of userName st) \<lparr>stream = st, user = userName\<rparr> s =
          s @ [(clientID_of userName st, \<lparr>stream = st, user = userName\<rparr>)]"
    using fresh by (induction s) auto
  then show ?thesis
    using assms fresh by (auto simp: register_conn_def Let_def registry_ok_def)
qed

lemma registry_ok_RealtimeChat:
  assumes "registry_ok s" "st \<notin> (\<lambda>e. stream (snd e)) ` set s"
    and "RealtimeChat s st inputs = (out, s', tr)"
  shows "registry_ok s'"
proof (cases inputs)
  case Nil
  with assms show ?thesis by (simp add: RealtimeChat_def)
next
  case (Cons r rest)
  show ?thesis
  proof (cases r)
    case (Msg firstMsg)
    show ?thesis
    proof (cases "User firstMsg = []")
      case True
      with assms Cons Msg show ?thesis by (simp add: RealtimeChat_def)
    next
      case False
      have ok1: "registry_ok (fst (register_conn s st (User firstMsg)))"
        by (rule registry_ok_register [OF assms(1) False assms(2)])
      have "s' = fst (register_conn s st (User firstMsg)) \<or>
            s' = AList.delete (clientID_of (User firstMsg) st)
                   (fst (register_conn s st (User firstMsg)))"
        using assms(3) Cons Msg False
        by (auto simp: RealtimeChat_def Let_def close_conn_def split: prod.splits if_splits)
      with ok1 registry_ok_delete show ?thesis by auto
    qed
  next
    case EOF
    with assms Cons show ?thesis by (simp add: RealtimeChat_def)
  next
    case RecvError
    with assms Cons show ?thesis by (simp add: RealtimeChat_def)
  qed
qed

lemma registry_ok_no_empty_key: "registry_ok s \<Longrightarrow> map_of s '''' = None"
  by (auto simp: registry_ok_def list_all_iff clientID_of_def map_of_eq_None_iff)

lemma map_of_delete_Some:
  "map_of (AList.delete k s) k' = Some c \<longleftrightarrow> k' \<noteq> k \<and> map_of s k' = Some c"
  by (simp add: AList.delete_conv')

lemma reg_AB_ok: "registry_ok reg_AB"
  by (simp add: reg_AB_def registry_ok_def clientID_of_def Sprintf_p_def hex.simps hexdigit_def)

subsection \<open>Broadcast\<close>

lemma broadcast_set:
  assumes "registry_ok s"
  shows "set (deliveries (broadcast s msg ex)) =
           {(stream c, msg) |cid c. map_of s cid = Some c \<and> cid \<noteq> ex}"
  using assms by (force simp: deliveries_broadcast registry_ok_map_of)

lemma broadcast_distinct:
  assumes "registry_ok s"
  shows "distinct (deliveries (broadcast s msg ex))"
proof -
  have "distinct (map (\<lambda>e. stream (snd e)) (filter (\<lambda>e. fst e \<noteq> ex) s))"
    using assms by (simp add: registry_ok_def distinct_map_filter)
  moreover have "map fst (deliveries (broadcast s msg ex)) =
          map (\<lambda>e. stream (snd e)) (filter (\<lambda>e. fst e \<noteq> ex) s)"
    by (simp add: deliveries_broadcast comp_def)
  ultimately show ?thesis by (metis distinct_map)
qed

lemma broadcast_skips_excluded:
  assumes "registry_ok s" "map_of s ex = Some c"
  shows "stream c \<notin> fst ` set (deliveries (broadcast s msg ex))"
proof
  assume "stream c \<in> fst ` set (deliveries (broadcast s msg ex))"
  then obtain e where e: "e \<in> set s" "fst e \<noteq> ex" "stream (snd e) = stream c"
    by (auto simp: deliveries_broadcast)
  moreover have "(ex, c) \<in> set s" using assms by (simp add: registry_ok_map_of)
  ultimately have "e = (ex, c)"
    using registry_ok_stream_inj [OF assms(1), of e "(ex, c)"] by simp
  with e show False by simp
qed

text \<open>
  C1. In a registry as the server builds it, \<^verbatim>\<open>broadcast(msg, excludeID)\<close> starts a send of
  \<open>msg\<close> for exactly the registered connections whose id is not \<open>excludeID\<close>, one send
  each, and no send at all goes to the stream registered under \<open>excludeID\<close>.
\<close>

theorem broadcast_exactly_others:
  assumes "registry_ok s"
  shows "set (deliveries (broadcast s msg excludeID)) =
           {(stream c, msg) |cid c. map_of s cid = Some c \<and> cid \<noteq> excludeID}
         \<and> distinct (deliveries (broadcast s msg excludeID))
         \<and> (\<forall>c. map_of s excludeID = Some c \<longrightarrow>
               stream c \<notin> fst ` set (deliveries (broadcast s msg excludeID)))"
proof (intro conjI allI impI)
  show "set (deliveries (broadcast s msg excludeID)) =
          {(stream c, msg) |cid c. map_of s cid = Some c \<and> cid \<noteq> excludeID}"
    by (rule broadcast_set [OF assms])
  show "distinct (deliveries (broadcast s msg excludeID))"
    by (rule broadcast_distinct [OF assms])
next
  fix c assume "map_of s excludeID = Some c"
  then show "stream c \<notin> fst ` set (deliveries (broadcast s msg excludeID))"
    by (rule broadcast_skips_excluded [OF assms])
qed

theorem broadcast_exactly_others_witness:
  "registry_ok reg_AB
   \<and> map_of reg_AB ''A_0x1'' = Some \<lparr>stream = 1, user = ''A''\<rparr>
   \<and> deliveries (broadcast reg_AB hi_from_A ''A_0x1'') = [(2, hi_from_A)]
   \<and> stream \<lparr>stream = 1, user = ''A''\<rparr>
        \<notin> fst ` set (deliveries (broadcast reg_AB hi_from_A ''A_0x1''))"
proof -
  have m: "map_of reg_AB ''A_0x1'' = Some \<lparr>stream = 1, user = ''A''\<rparr>"
    by (simp add: reg_AB_def)
  have d: "deliveries (broadcast reg_AB hi_from_A ''A_0x1'') = [(2, hi_from_A)]"
    by (simp add: reg_AB_def broadcast_def sendRoutine_def)
  from broadcast_exactly_others [OF reg_AB_ok, of hi_from_A "''A_0x1''"] m
  have "stream \<lparr>stream = 1, user = ''A''\<rparr>
          \<notin> fst ` set (deliveries (broadcast reg_AB hi_from_A ''A_0x1''))"
    by blast
  with reg_AB_ok m d show ?thesis by blast
qed

subsection \<open>Direct messages\<close>










subsection \<open>The handshake\<close>

text \<open>
  C4. When the first message of a stream carries an empty user name, \<^verbatim>\<open>RealtimeChat\<close>
  returns the status error \<^verbatim>\<open>InvalidArgument\<close>, whatever else the stream would deliver:
  it reads no further message, the map of connections is the one it was called with, and
  it has taken no lock, stored no connection and sent nothing.
\<close>

theorem empty_username_rejected:
  assumes "User firstMsg = ''''"
  shows "RealtimeChat s st (Msg firstMsg # rest) =
           (Returned (Some (InvalidArgument, ''Username cannot be empty'')), s, [])"
  using assms by (simp add: RealtimeChat_def)

theorem empty_username_rejected_witness:
  "User \<lparr>User = '''', Text = ''has joined'', RecipientUser = ''''\<rparr> = ''''
   \<and> RealtimeChat reg_AB 3
        [Msg \<lparr>User = '''', Text = ''has joined'', RecipientUser = ''''\<rparr>, Msg hi_from_A, EOF]
       = (Returned (Some (InvalidArgument, ''Username cannot be empty'')), reg_AB, [])"
proof -
  have a: "User \<lparr>User = '''', Text = ''has joined'', RecipientUser = ''''\<rparr> = ''''" by simp
  from empty_username_rejected [OF a, of reg_AB 3 "[Msg hi_from_A, EOF]"] a
  show ?thesis by blast
qed

subsection \<open>Leaving\<close>

lemma close_conn_set:
  assumes "registry_ok r"
  shows "set (deliveries (snd (close_conn r cid u))) =
           {(stream c, leaveMsg u) |k c. map_of r k = Some c \<and> k \<noteq> cid}"
proof -
  have ok: "registry_ok (AList.delete cid r)" by (rule registry_ok_delete [OF assms])
  have ne: "\<And>k c. map_of r k = Some c \<Longrightarrow> k \<noteq> ''''"
    using registry_ok_no_empty_key [OF assms] by auto
  have "set (deliveries (snd (close_conn r cid u))) =
          {(stream c, leaveMsg u) |k c. map_of (AList.delete cid r) k = Some c \<and> k \<noteq> ''''}"
    by (simp add: close_conn_def Let_def deliveries_append broadcast_set [OF ok])
  also have "\<dots> = {(stream c, leaveMsg u) |k c. map_of r k = Some c \<and> k \<noteq> cid}"
    using ne by (auto simp: map_of_delete_Some)
  finally show ?thesis .
qed

lemma close_conn_distinct:
  assumes "registry_ok r"
  shows "distinct (deliveries (snd (close_conn r cid u)))"
  using broadcast_distinct [OF registry_ok_delete [OF assms]]
  by (simp add: close_conn_def Let_def deliveries_append)

lemma departed_never_target:
  assumes "registry_ok r" "map_of r cid = Some c"
  shows "stream c \<notin> fst ` set (deliveries (broadcast (AList.delete cid r) m x))"
proof
  assume "stream c \<in> fst ` set (deliveries (broadcast (AList.delete cid r) m x))"
  then obtain e where e: "e \<in> set (AList.delete cid r)" "stream (snd e) = stream c"
    by (auto simp: deliveries_broadcast)
  then have e': "e \<in> set r" "fst e \<noteq> cid" by (auto simp: AList.delete_eq)
  moreover have "(cid, c) \<in> set r" using assms by (simp add: registry_ok_map_of)
  ultimately have "e = (cid, c)"
    using registry_ok_stream_inj [OF assms(1), of e "(cid, c)"] e by simp
  with e' show False by simp
qed

lemma recv_loop_exit:
  assumes "e = EOF \<or> e = RecvError"
  shows "recv_loop s st cid (map Msg msgs @ e # rest) =
           (True, concat (map (handle_msg s st cid) msgs))"
  using assms by (induction msgs) auto

text \<open>
  C5. Leaving deletes the connection first and only then broadcasts the leave notice, with
  \<^verbatim>\<open>excludeID = ""\<close>, over the map without it. In a registry as the server builds it, every
  connection that remains is sent the notice exactly once, and the stream of the deleted
  connection is sent neither the notice nor anything by a later broadcast over the map
  that is left. A receive loop that ends, with \<^verbatim>\<open>io.EOF\<close> or with an error, leads there:
  \<^verbatim>\<open>RealtimeChat\<close> returns \<^verbatim>\<open>nil\<close> and its run ends with that deletion and broadcast.
\<close>

theorem leave_after_unregister:
  assumes "registry_ok r"
  shows "fst (close_conn r cid u) = AList.delete cid r
       \<and> snd (close_conn r cid u) =
           [Lock, MapDelete cid, Unlock] @ broadcast (AList.delete cid r) (leaveMsg u) ''''
       \<and> set (deliveries (snd (close_conn r cid u))) =
           {(stream c, leaveMsg u) |k c. map_of r k = Some c \<and> k \<noteq> cid}
       \<and> distinct (deliveries (snd (close_conn r cid u)))
       \<and> (\<forall>c m x. map_of r cid = Some c \<longrightarrow>
             stream c \<notin> fst ` set (deliveries (snd (close_conn r cid u))) \<and>
             stream c \<notin> fst ` set (deliveries (broadcast (fst (close_conn r cid u)) m x)))
       \<and> (\<forall>s st firstMsg msgs e rest.
             User firstMsg \<noteq> '''' \<and> (e = EOF \<or> e = RecvError) \<longrightarrow>
             RealtimeChat s st (Msg firstMsg # map Msg msgs @ e # rest) =
                (Returned None,
                 fst (close_conn (fst (register_conn s st (User firstMsg)))
                        (clientID_of (User firstMsg) st) (User firstMsg)),
                 snd (register_conn s st (User firstMsg)) @
                 concat (map (handle_msg (fst (register_conn s st (User firstMsg))) st
                                (clientID_of (User firstMsg) st)) msgs) @
                 snd (close_conn (fst (register_conn s st (User firstMsg)))
                        (clientID_of (User firstMsg) st) (User firstMsg))))"
proof (intro conjI allI impI)
  show "fst (close_conn r cid u) = AList.delete cid r"
    by (simp add: close_conn_def Let_def)
  show "snd (close_conn r cid u) =
           [Lock, MapDelete cid, Unlock] @ broadcast (AList.delete cid r) (leaveMsg u) ''''"
    by (simp add: close_conn_def Let_def)
  show "set (deliveries (snd (close_conn r cid u))) =
           {(stream c, leaveMsg u) |k c. map_of r k = Some c \<and> k \<noteq> cid}"
    by (rule close_conn_set [OF assms])
  show "distinct (deliveries (snd (close_conn r cid u)))"
    by (rule close_conn_distinct [OF assms])
next
  fix c m x assume c: "map_of r cid = Some c"
  show "stream c \<notin> fst ` set (deliveries (snd (close_conn r cid u)))"
    using departed_never_target [OF assms c, of "leaveMsg u" "''''"]
    by (simp add: close_conn_def Let_def deliveries_append)
  show "stream c \<notin> fst ` set (deliveries (broadcast (fst (close_conn r cid u)) m x))"
    using departed_never_target [OF assms c, of m x]
    by (simp add: close_conn_def Let_def)
next
  fix s st and firstMsg :: ChatMessage and msgs e rest
  assume a: "User firstMsg \<noteq> '''' \<and> (e = EOF \<or> e = RecvError)"
  then have e: "e = EOF \<or> e = RecvError" by simp
  show "RealtimeChat s st (Msg firstMsg # map Msg msgs @ e # rest) =
                (Returned None,
                 fst (close_conn (fst (register_conn s st (User firstMsg)))
                        (clientID_of (User firstMsg) st) (User firstMsg)),
                 snd (register_conn s st (User firstMsg)) @
                 concat (map (handle_msg (fst (register_conn s st (User firstMsg))) st
                                (clientID_of (User firstMsg) st)) msgs) @
                 snd (close_conn (fst (register_conn s st (User firstMsg)))
                        (clientID_of (User firstMsg) st) (User firstMsg)))"
    using a by (simp add: RealtimeChat_def Let_def recv_loop_exit [OF e] split: prod.splits)
qed

theorem leave_after_unregister_witness:
  "registry_ok reg_AB
   \<and> map_of reg_AB ''A_0x1'' = Some \<lparr>stream = 1, user = ''A''\<rparr>
   \<and> fst (close_conn reg_AB ''A_0x1'' ''A'') = [(''B_0x2'', \<lparr>stream = 2, user = ''B''\<rparr>)]
   \<and> deliveries (snd (close_conn reg_AB ''A_0x1'' ''A'')) = [(2, leaveMsg ''A'')]
   \<and> stream \<lparr>stream = 1, user = ''A''\<rparr>
        \<notin> fst ` set (deliveries (snd (close_conn reg_AB ''A_0x1'' ''A'')))
   \<and> stream \<lparr>stream = 1, user = ''A''\<rparr>
        \<notin> fst ` set (deliveries (broadcast (fst (close_conn reg_AB ''A_0x1'' ''A''))
                                    hi_from_A ''B_0x2''))"
proof -
  note t = leave_after_unregister [OF reg_AB_ok, of "''A_0x1''" "''A''"]
  have m: "map_of reg_AB ''A_0x1'' = Some \<lparr>stream = 1, user = ''A''\<rparr>"
    by (simp add: reg_AB_def)
  have f: "fst (close_conn reg_AB ''A_0x1'' ''A'') = [(''B_0x2'', \<lparr>stream = 2, user = ''B''\<rparr>)]"
    using t by (simp add: reg_AB_def)
  have d: "deliveries (snd (close_conn reg_AB ''A_0x1'' ''A'')) = [(2, leaveMsg ''A'')]"
    by (simp add: close_conn_def reg_AB_def broadcast_def sendRoutine_def)
  from t m have n1: "stream \<lparr>stream = 1, user = ''A''\<rparr>
        \<notin> fst ` set (deliveries (snd (close_conn reg_AB ''A_0x1'' ''A'')))"
    by blast
  from t m have n2: "stream \<lparr>stream = 1, user = ''A''\<rparr>
        \<notin> fst ` set (deliveries (broadcast (fst (close_conn reg_AB ''A_0x1'' ''A''))
                                    hi_from_A ''B_0x2''))"
    by blast
  from reg_AB_ok m f d n1 n2 show ?thesis by blast
qed

subsection \<open>Locks\<close>

text \<open>
  On the server every store into the map and every deletion from it happens under the
  write lock, the scans of \<^verbatim>\<open>broadcast\<close> and \<^verbatim>\<open>sendToUser\<close> hold the read lock and only
  start goroutines, and a session sends on its own stream while it holds no lock.
\<close>

lemma exclusive_stores_Go:
  "\<forall>e \<in> set es. \<exists>e'. e = Go e' \<Longrightarrow>
   exclusive_stores w l (es @ rest) = exclusive_stores w l rest"
  by (induction es) auto

lemma broadcast_range_Go: "\<forall>e \<in> set (broadcast_range s msg ex). \<exists>e'. e = Go e'"
  by (induction s msg ex rule: broadcast_range.induct) auto

lemma sendToUser_range_Go: "\<forall>e \<in> set (snd (sendToUser_range s u msg f)). \<exists>e'. e = Go e'"
  by (induction s u msg f rule: sendToUser_range.induct) (auto split: prod.splits)

lemma broadcast_exclusive:
  "exclusive_stores w l (broadcast s msg ex @ rest) = exclusive_stores w False rest"
  by (simp add: broadcast_def exclusive_stores_Go [OF broadcast_range_Go])

lemma sendToUser_exclusive:
  "exclusive_stores w l (snd (sendToUser s u msg) @ rest) = exclusive_stores w False rest"
proof -
  obtain f tr where p: "sendToUser_range s u msg False = (f, tr)"
    by (cases "sendToUser_range s u msg False")
  then have "\<forall>e \<in> set tr. \<exists>e'. e = Go e'"
    using sendToUser_range_Go [of s u msg False] by simp
  then show ?thesis
    using p by (simp add: sendToUser_def exclusive_stores_Go)
qed

lemma handle_msg_exclusive:
  "exclusive_stores False False (handle_msg s st cid msg @ rest) =
     exclusive_stores False False rest"
proof (cases "RecipientUser msg = ''''")
  case True
  then show ?thesis by (simp add: handle_msg_def broadcast_exclusive)
next
  case False
  obtain f tr where p: "sendToUser s (RecipientUser msg) msg = (f, tr)"
    by (cases "sendToUser s (RecipientUser msg) msg")
  have tr: "\<And>r. exclusive_stores False False (tr @ r) = exclusive_stores False False r"
    using sendToUser_exclusive [of False False s "RecipientUser msg" msg] p by simp
  have "handle_msg s st cid msg @ rest =
          tr @ ([Send st msg] @ (if \<not> f then [Send st (systemMsg (RecipientUser msg))] else [])
                @ rest)"
    using False p by (simp add: handle_msg_def)
  then show ?thesis by (simp only: tr) simp
qed

lemma register_conn_exclusive:
  "exclusive_stores False False (snd (register_conn s st u) @ rest) =
     exclusive_stores False False rest"
  by (simp add: register_conn_def Let_def broadcast_exclusive)

lemma close_conn_exclusive:
  "exclusive_stores False False (snd (close_conn s cid u) @ rest) =
     exclusive_stores False False rest"
  by (simp add: close_conn_def Let_def broadcast_exclusive)

lemma recv_loop_exclusive:
  "exclusive_stores False False (snd (recv_loop s st cid inputs) @ rest) =
     exclusive_stores False False rest"
proof (induction inputs)
  case Nil
  then show ?case by simp
next
  case (Cons r inputs)
  show ?case
  proof (cases r)
    case (Msg m)
    obtain left tr where p: "recv_loop s st cid inputs = (left, tr)"
      by (cases "recv_loop s st cid inputs")
    with Cons have "exclusive_stores False False (tr @ rest) = exclusive_stores False False rest"
      by simp
    then show ?thesis
      using Msg p handle_msg_exclusive [of s st cid m "tr @ rest"] by simp
  qed simp_all
qed

lemma RealtimeChat_exclusive:
  "exclusive_stores False False (snd (snd (RealtimeChat s st inputs)))"
proof (cases inputs)
  case Nil
  then show ?thesis by (simp add: RealtimeChat_def)
next
  case (Cons r rest)
  show ?thesis
  proof (cases r)
    case (Msg firstMsg)
    show ?thesis
    proof (cases "User firstMsg = ''''")
      case True
      with Cons Msg show ?thesis by (simp add: RealtimeChat_def)
    next
      case False
      obtain s1 tr1 where a: "register_conn s st (User firstMsg) = (s1, tr1)"
        by (cases "register_conn s st (User firstMsg)")
      obtain left tr2 where b: "recv_loop s1 st (clientID_of (User firstMsg) st) rest = (left, tr2)"
        by (cases "recv_loop s1 st (clientID_of (User firstMsg) st) rest")
      obtain s2 tr3 where c: "close_conn s1 (clientID_of (User firstMsg) st) (User firstMsg) = (s2, tr3)"
        by (cases "close_conn s1 (clientID_of (User firstMsg) st) (User firstMsg)")
      have t1: "\<And>r. exclusive_stores False False (tr1 @ r) = exclusive_stores False False r"
        using register_conn_exclusive [of s st "User firstMsg"] a by simp
      have t2: "\<And>r. exclusive_stores False False (tr2 @ r) = exclusive_stores False False r"
        using recv_loop_exclusive [of s1 st "clientID_of (User firstMsg) st" rest] b by simp
      have t3: "exclusive_stores False False tr3"
        using close_conn_exclusive [of s1 "clientID_of (User firstMsg) st" "User firstMsg" "[]"] c
        by simp
      have e1: "exclusive_stores False False (tr1 @ tr2)"
        using t1 [of tr2] t2 [of "[]"] by simp
      have e2: "exclusive_stores False False (tr1 @ tr2 @ tr3)"
        using t1 [of "tr2 @ tr3"] t2 [of tr3] t3 by simp
      show ?thesis
        using Cons Msg False a b c e1 e2 by (simp add: RealtimeChat_def Let_def)
    qed
  next
    case EOF
    with Cons show ?thesis by (simp add: RealtimeChat_def)
  next
    case RecvError
    with Cons show ?thesis by (simp add: RealtimeChat_def)
  qed
qed

section \<open>Properties of the bridge\<close>

subsection \<open>The broadcast case of the hub\<close>

lemma mem_upd [simp]: "mem (upd h c f) x = (if x = c then f (mem h c) else mem h x)"
  by (simp add: upd_def)

lemma clients_upd [simp]: "clients (upd h c f) = clients h"
  by (simp add: upd_def)

lemma broadcast_loop_effect:
  assumes "distinct cs" "\<forall>c\<in>set cs. \<not> is_closed (send (mem h c))" "set cs \<subseteq> set (clients h)"
  shows "\<exists>h' tr'. broadcast_loop m cs h tr = Done (h', tr')
           \<and> clients h' = filter (\<lambda>c. c \<notin> set cs \<or> has_room (mem h c)) (clients h)
           \<and> (\<forall>c. mem h' c =
                (if c \<in> set cs
                 then (if has_room (mem h c)
                       then (mem h c)\<lparr>send := (send (mem h c))\<lparr>buf := buf (send (mem h c)) @ [m]\<rparr>\<rparr>
                       else (mem h c)\<lparr>send := (send (mem h c))\<lparr>is_closed := True\<rparr>\<rparr>)
                 else mem h c))"
  using assms
proof (induction cs arbitrary: h tr)
  case Nil
  then show ?case by simp
next
  case (Cons a rest)
  have open_a: "\<not> is_closed (send (mem h a))" using Cons.prems by simp
  have a_notin: "a \<notin> set rest" and d: "distinct rest" using Cons.prems by simp_all
  have a_in: "a \<in> set (clients h)" using Cons.prems by simp
  show ?case
  proof (cases "has_room (mem h a)")
    case True
    let ?h1 = "upd h a (\<lambda>c. c\<lparr>send := (send c)\<lparr>buf := buf (send c) @ [m]\<rparr>\<rparr>)"
    have p2: "\<forall>c\<in>set rest. \<not> is_closed (send (mem ?h1 c))"
      using Cons.prems a_notin by auto
    have p3: "set rest \<subseteq> set (clients ?h1)" using Cons.prems by simp
    from Cons.IH [OF d p2 p3, of "tr @ [ChanSend a m]"]
    obtain h' tr' where r: "broadcast_loop m rest ?h1 (tr @ [ChanSend a m]) = Done (h', tr')"
      and c: "clients h' = filter (\<lambda>c. c \<notin> set rest \<or> has_room (mem ?h1 c)) (clients ?h1)"
      and m: "\<forall>c. mem h' c =
                (if c \<in> set rest
                 then (if has_room (mem ?h1 c)
                       then (mem ?h1 c)\<lparr>send := (send (mem ?h1 c))\<lparr>buf := buf (send (mem ?h1 c)) @ [m]\<rparr>\<rparr>
                       else (mem ?h1 c)\<lparr>send := (send (mem ?h1 c))\<lparr>is_closed := True\<rparr>\<rparr>)
                 else mem ?h1 c)"
      by blast
    have "broadcast_loop m (a # rest) h tr = Done (h', tr')"
      using True open_a r by (simp add: has_room_def)
    moreover have "clients h' = filter (\<lambda>c. c \<notin> set (a # rest) \<or> has_room (mem h c)) (clients h)"
      unfolding c using True a_notin by (auto intro!: filter_cong)
    moreover have "\<forall>c. mem h' c =
                (if c \<in> set (a # rest)
                 then (if has_room (mem h c)
                       then (mem h c)\<lparr>send := (send (mem h c))\<lparr>buf := buf (send (mem h c)) @ [m]\<rparr>\<rparr>
                       else (mem h c)\<lparr>send := (send (mem h c))\<lparr>is_closed := True\<rparr>\<rparr>)
                 else mem h c)"
      using m True a_notin by auto
    ultimately show ?thesis by blast
  next
    case False
    let ?h1 = "(upd h a (\<lambda>c. c\<lparr>send := (send c)\<lparr>is_closed := True\<rparr>\<rparr>))\<lparr>clients := removeAll a (clients h)\<rparr>"
    have p2: "\<forall>c\<in>set rest. \<not> is_closed (send (mem ?h1 c))"
      using Cons.prems a_notin by auto
    have p3: "set rest \<subseteq> set (clients ?h1)" using Cons.prems a_notin by auto
    from Cons.IH [OF d p2 p3, of "tr @ [ChanClose a, MapRemove a]"]
    obtain h' tr' where r: "broadcast_loop m rest ?h1 (tr @ [ChanClose a, MapRemove a]) = Done (h', tr')"
      and c: "clients h' = filter (\<lambda>c. c \<notin> set rest \<or> has_room (mem ?h1 c)) (clients ?h1)"
      and m: "\<forall>c. mem h' c =
                (if c \<in> set rest
                 then (if has_room (mem ?h1 c)
                       then (mem ?h1 c)\<lparr>send := (send (mem ?h1 c))\<lparr>buf := buf (send (mem ?h1 c)) @ [m]\<rparr>\<rparr>
                       else (mem ?h1 c)\<lparr>send := (send (mem ?h1 c))\<lparr>is_closed := True\<rparr>\<rparr>)
                 else mem ?h1 c)"
      by blast
    have "broadcast_loop m (a # rest) h tr = Done (h', tr')"
      using False open_a a_in r by (simp add: has_room_def)
    moreover have "clients h' = filter (\<lambda>c. c \<notin> set (a # rest) \<or> has_room (mem h c)) (clients h)"
      unfolding c using False a_notin
      by (auto simp: removeAll_filter_not_eq intro!: filter_cong)
    moreover have "\<forall>c. mem h' c =
                (if c \<in> set (a # rest)
                 then (if has_room (mem h c)
                       then (mem h c)\<lparr>send := (send (mem h c))\<lparr>buf := buf (send (mem h c)) @ [m]\<rparr>\<rparr>
                       else (mem h c)\<lparr>send := (send (mem h c))\<lparr>is_closed := True\<rparr>\<rparr>)
                 else mem h c)"
      using m False a_notin by auto
    ultimately show ?thesis by blast
  qed
qed

lemma run_broadcast_effect:
  assumes "hub_ok h"
  shows "\<exists>h' tr. run_broadcast h m = Done (h', tr)
           \<and> clients h' = filter (\<lambda>c. has_room (mem h c)) (clients h)
           \<and> (\<forall>c. mem h' c =
                (if c \<in> set (clients h)
                 then (if has_room (mem h c)
                       then (mem h c)\<lparr>send := (send (mem h c))\<lparr>buf := buf (send (mem h c)) @ [m]\<rparr>\<rparr>
                       else (mem h c)\<lparr>send := (send (mem h c))\<lparr>is_closed := True\<rparr>\<rparr>)
                 else mem h c))"
proof -
  have 1: "distinct (clients h)" and 2: "\<forall>c\<in>set (clients h). \<not> is_closed (send (mem h c))"
    using assms by (simp_all add: hub_ok_def list_all_iff)
  from broadcast_loop_effect [OF 1 2 subset_refl, of m "[HRLock]"]
  obtain h' tr' where r: "broadcast_loop m (clients h) h [HRLock] = Done (h', tr')"
    and c: "clients h' = filter (\<lambda>c. c \<notin> set (clients h) \<or> has_room (mem h c)) (clients h)"
    and m: "\<forall>c. mem h' c =
                (if c \<in> set (clients h)
                 then (if has_room (mem h c)
                       then (mem h c)\<lparr>send := (send (mem h c))\<lparr>buf := buf (send (mem h c)) @ [m]\<rparr>\<rparr>
                       else (mem h c)\<lparr>send := (send (mem h c))\<lparr>is_closed := True\<rparr>\<rparr>)
                 else mem h c)"
    by blast
  have "run_broadcast h m = Done (h', tr' @ [HRUnlock])" using r by (simp add: run_broadcast_def)
  moreover have "clients h' = filter (\<lambda>c. has_room (mem h c)) (clients h)"
    unfolding c by (auto intro!: filter_cong)
  ultimately show ?thesis using m by blast
qed

lemma run_broadcast_room:
  assumes "hub_ok h" "c \<in> set (clients h)" "has_room (mem h c)"
  shows "\<exists>h' tr. run_broadcast h m = Done (h', tr)
           \<and> buf (send (mem h' c)) = buf (send (mem h c)) @ [m]
           \<and> c \<in> set (clients h')"
proof -
  from run_broadcast_effect [OF assms(1), of m]
  obtain h' tr where r: "run_broadcast h m = Done (h', tr)"
    and cl: "clients h' = filter (\<lambda>c. has_room (mem h c)) (clients h)"
    and me: "\<forall>c. mem h' c =
                (if c \<in> set (clients h)
                 then (if has_room (mem h c)
                       then (mem h c)\<lparr>send := (send (mem h c))\<lparr>buf := buf (send (mem h c)) @ [m]\<rparr>\<rparr>
                       else (mem h c)\<lparr>send := (send (mem h c))\<lparr>is_closed := True\<rparr>\<rparr>)
                 else mem h c)"
    by blast
  have "buf (send (mem h' c)) = buf (send (mem h c)) @ [m]"
    using me assms by simp
  moreover have "c \<in> set (clients h')" using cl assms by simp
  ultimately show ?thesis using r by blast
qed

subsection \<open>Hubs as \<^verbatim>\<open>run\<close> builds them\<close>

lemma hub_ok_newWSHub: "hub_ok (newWSHub m)"
  by (simp add: hub_ok_def newWSHub_def)

lemma hub_ok_handleWebSocket:
  assumes "hub_ok h"
  shows "\<exists>h'. handleWebSocket h p = Done h' \<and> hub_ok h'"
  using assms
  by (auto simp: handleWebSocket_def run_register_def hub_ok_def list_all_iff new_client_def
      make_chan_def)

lemma hub_ok_run_unregister:
  assumes "hub_ok h"
  shows "\<exists>h' tr. run_unregister h c = Done (h', tr) \<and> hub_ok h'"
proof (cases "c \<in> set (clients h)")
  case False
  with assms show ?thesis by (simp add: run_unregister_def)
next
  case True
  with assms have o: "\<not> is_closed (send (mem h c))" by (simp add: hub_ok_def list_all_iff)
  show ?thesis
    using assms True o
    by (cases "grpcConn (mem h c)")
       (auto simp: run_unregister_def Let_def hub_ok_def list_all_iff distinct_removeAll)
qed

lemma hub_ok_run_broadcast:
  assumes "hub_ok h"
  shows "\<exists>h' tr. run_broadcast h m = Done (h', tr) \<and> hub_ok h'"
proof -
  from run_broadcast_effect [OF assms, of m]
  obtain h' tr where r: "run_broadcast h m = Done (h', tr)"
    and cl: "clients h' = filter (\<lambda>c. has_room (mem h c)) (clients h)"
    and me: "\<forall>c. mem h' c =
                (if c \<in> set (clients h)
                 then (if has_room (mem h c)
                       then (mem h c)\<lparr>send := (send (mem h c))\<lparr>buf := buf (send (mem h c)) @ [m]\<rparr>\<rparr>
                       else (mem h c)\<lparr>send := (send (mem h c))\<lparr>is_closed := True\<rparr>\<rparr>)
                 else mem h c)"
    by blast
  have "hub_ok h'"
    using assms cl me by (auto simp: hub_ok_def list_all_iff)
  with r show ?thesis by blast
qed

subsection \<open>Online users and the queue of one client\<close>

lemma getOnlineUsers_range_eq:
  "getOnlineUsers_range h cs users =
     users @ filter (\<lambda>u. u \<noteq> '''') (map (\<lambda>c. username (mem h c)) cs)"
  by (induction cs arbitrary: users) auto

lemma getOnlineUsers_eq:
  "getOnlineUsers h = filter (\<lambda>u. u \<noteq> '''') (map (\<lambda>c. username (mem h c)) (clients h))"
  by (simp add: getOnlineUsers_def getOnlineUsers_range_eq)


subsection \<open>The example hubs\<close>

lemma hub_AB_ok: "hub_ok hub_AB"
  by (simp add: hub_ok_def hub_AB_def new_client_def client_B_def make_chan_def)

lemma hub_B_full_ok: "hub_ok hub_B_full"
  by (simp add: hub_ok_def hub_B_full_def client_B_def full_chan_def)

lemma run_broadcast_hub_B_full:
  "run_broadcast hub_B_full m =
     Done (\<lparr>clients = [],
            mem = (\<lambda>p. new_client)(2 := client_B\<lparr>send := full_chan\<lparr>is_closed := True\<rparr>\<rparr>)\<rparr>,
           [HRLock, ChanClose 2, MapRemove 2, HRUnlock])"
  by (simp add: run_broadcast_def hub_B_full_def full_chan_def upd_def fun_eq_iff)

lemma run_broadcast_hub_new_full:
  "run_broadcast hub_new_full m =
     Done (\<lparr>clients = [],
            mem = (\<lambda>p. new_client)(1 := new_client\<lparr>send := full_chan\<lparr>is_closed := True\<rparr>\<rparr>)\<rparr>,
           [HRLock, ChanClose 1, MapRemove 1, HRUnlock])"
  by (simp add: run_broadcast_def hub_new_full_def full_chan_def upd_def fun_eq_iff)

subsection \<open>Joining\<close>





subsection \<open>Eviction\<close>

text \<open>
  C3. A broadcast that finds the queue of the joined client at address 2 full closes the
  queue and deletes the client from the map, and leaves its gRPC connection open. The
  unregister case that follows finds the client gone and releases nothing, and the next
  message its relay receives is sent on the closed queue. The unregister case on the same
  hub does close the connection.
\<close>

theorem eviction_leaves_upstream_open:
  "hub_ok hub_B_full \<and> grpcConn (mem hub_B_full 2) = Some ConnOpen
   \<and> trace_of (run_broadcast hub_B_full (userJoinMsg ''A'')) =
       [HRLock, ChanClose 2, MapRemove 2, HRUnlock]
   \<and> (\<exists>h' tr. run_broadcast hub_B_full (userJoinMsg ''A'') = Done (h', tr)
         \<and> 2 \<notin> set (clients h')
         \<and> is_closed (send (mem h' 2))
         \<and> grpcConn (mem h' 2) = Some ConnOpen
         \<and> run_unregister h' 2 = Done (h', [HLock, HUnlock])
         \<and> handleGRPCMessages h' 2 [(Msg hi_from_A, ''t'')] = Panic SendOnClosedChannel)
   \<and> trace_of (run_unregister hub_B_full 2) =
       [HLock, MapRemove 2, ChanClose 2, ConnClose 2, HUnlock]
   \<and> (\<exists>h' tr. run_unregister hub_B_full 2 = Done (h', tr)
         \<and> 2 \<notin> set (clients h')
         \<and> is_closed (send (mem h' 2))
         \<and> grpcConn (mem h' 2) = Some ConnClosed)"
proof -
  have a: "grpcConn (mem hub_B_full 2) = Some ConnOpen"
    by (simp add: hub_B_full_def client_B_def)
  have t: "trace_of (run_broadcast hub_B_full (userJoinMsg ''A'')) =
       [HRLock, ChanClose 2, MapRemove 2, HRUnlock]"
    unfolding run_broadcast_hub_B_full by (simp add: trace_of_def)
  have b: "\<exists>h' tr. run_broadcast hub_B_full (userJoinMsg ''A'') = Done (h', tr)
         \<and> 2 \<notin> set (clients h')
         \<and> is_closed (send (mem h' 2))
         \<and> grpcConn (mem h' 2) = Some ConnOpen
         \<and> run_unregister h' 2 = Done (h', [HLock, HUnlock])
         \<and> handleGRPCMessages h' 2 [(Msg hi_from_A, ''t'')] = Panic SendOnClosedChannel"
    unfolding run_broadcast_hub_B_full
    by (simp add: client_B_def run_unregister_def client_send_def chan_send_def)
  have u: "trace_of (run_unregister hub_B_full 2) =
       [HLock, MapRemove 2, ChanClose 2, ConnClose 2, HUnlock]"
    by (simp add: trace_of_def run_unregister_def hub_B_full_def client_B_def full_chan_def
        upd_def Let_def)
  have c: "\<exists>h' tr. run_unregister hub_B_full 2 = Done (h', tr)
         \<and> 2 \<notin> set (clients h')
         \<and> is_closed (send (mem h' 2))
         \<and> grpcConn (mem h' 2) = Some ConnClosed"
    by (simp add: run_unregister_def hub_B_full_def client_B_def full_chan_def upd_def Let_def)
  from hub_B_full_ok a t b u c show ?thesis by blast
qed

subsection \<open>Locks\<close>

lemma run_register_exclusive: "exclusive_mutations False (trace_of (run_register h c))"
  by (simp add: run_register_def trace_of_def)

lemma run_unregister_exclusive: "exclusive_mutations False (trace_of (run_unregister h c))"
  by (simp add: run_unregister_def trace_of_def Let_def split: option.splits)

text \<open>
  C9. In the broadcast case of the hub the deletions from the map happen between
  \<^verbatim>\<open>RLock\<close> and \<^verbatim>\<open>RUnlock\<close>, so not under the write lock. The register and the
  unregister case of the hub change the map under \<^verbatim>\<open>Lock\<close>, and so does every run of
  \<^verbatim>\<open>RealtimeChat\<close> on the server.
\<close>

theorem eviction_deletes_under_read_lock:
  "trace_of (run_broadcast hub_B_full (userJoinMsg ''A'')) =
     [HRLock, ChanClose 2, MapRemove 2, HRUnlock]
   \<and> \<not> exclusive_mutations False (trace_of (run_broadcast hub_B_full (userJoinMsg ''A'')))
   \<and> trace_of (run_unregister hub_B_full 2) =
       [HLock, MapRemove 2, ChanClose 2, ConnClose 2, HUnlock]
   \<and> exclusive_mutations False (trace_of (run_unregister hub_B_full 2))
   \<and> exclusive_mutations False (trace_of (run_register hub_B_full 3))
   \<and> exclusive_stores False False
        (snd (snd (RealtimeChat reg_AB 3 [Msg x_to_C, Msg hi_from_A, EOF])))"
proof -
  have u: "trace_of (run_unregister hub_B_full 2) =
       [HLock, MapRemove 2, ChanClose 2, ConnClose 2, HUnlock]"
    by (simp add: trace_of_def run_unregister_def hub_B_full_def client_B_def full_chan_def
        upd_def Let_def)
  show ?thesis
    unfolding u run_broadcast_hub_B_full
    by (simp add: trace_of_def run_register_def RealtimeChat_exclusive)
qed

subsection \<open>What reaches a client as which type\<close>







subsection \<open>Clients that have not joined\<close>

lemma getOnlineUsers_drop_unjoined:
  assumes "username (mem h c) = ''''"
  shows "getOnlineUsers (h\<lparr>clients := removeAll c (clients h)\<rparr>) = getOnlineUsers h"
proof -
  have "filter (\<lambda>u. u \<noteq> '''') (map (\<lambda>q. username (mem h q)) (removeAll c xs)) =
        filter (\<lambda>u. u \<noteq> '''') (map (\<lambda>q. username (mem h q)) xs)" for xs
    using assms by (induction xs) auto
  then show ?thesis by (simp add: getOnlineUsers_eq)
qed

lemma handleChat_username:
  assumes "handleChat h c wsMsg sent = Done (h', m)"
  shows "username (mem h' c) = username (mem h c)"
  using assms
  by (auto simp: handleChat_def sendError_def client_send_def chan_send_def Let_def
      split: option.splits if_splits result.splits)

lemma readPump_frame_username:
  assumes "Type wsMsg \<noteq> ''join''" "readPump_frame h c wsMsg up sent = Done h'"
  shows "username (mem h' c) = username (mem h c)"
proof (cases "Type wsMsg = ''chat''")
  case True
  with assms obtain m where "handleChat h c wsMsg sent = Done (h', m)"
    by (auto simp: readPump_frame_def split: result.splits)
  then show ?thesis by (rule handleChat_username)
next
  case False
  with assms show ?thesis by (simp add: readPump_frame_def)
qed

text \<open>
  C10 (as amended). \<^verbatim>\<open>handleWebSocket\<close> puts every new client into the hub's map with the
  empty user name, an open queue and room in it, and no frame other than a \<^verbatim>\<open>join\<close>
  changes the name. A client in the map with the empty user name is sent every broadcast
  wire message while its queue has room, and it counts for nothing in the list of online
  users and in the body of the online-users endpoint: both are what they would be without
  it, and the list never holds the empty name.
\<close>

theorem unjoined_client_in_hub_not_in_list:
  assumes "hub_ok h" "c \<in> set (clients h)" "username (mem h c) = ''''"
  shows "(has_room (mem h c) \<longrightarrow>
            (\<exists>h' tr. run_broadcast h m = Done (h', tr)
               \<and> buf (send (mem h' c)) = buf (send (mem h c)) @ [m]
               \<and> c \<in> set (clients h')))
       \<and> getOnlineUsers h = getOnlineUsers (h\<lparr>clients := removeAll c (clients h)\<rparr>)
       \<and> api_users h = api_users (h\<lparr>clients := removeAll c (clients h)\<rparr>)
       \<and> '''' \<notin> set (getOnlineUsers h)
       \<and> (\<forall>h0 p. \<exists>h1. handleWebSocket h0 p = Done h1 \<and> username (mem h1 p) = ''''
               \<and> p \<in> set (clients h1) \<and> has_room (mem h1 p)
               \<and> \<not> is_closed (send (mem h1 p)))
       \<and> (\<forall>wsMsg up sent h'.
             Type wsMsg \<noteq> ''join'' \<and> readPump_frame h c wsMsg up sent = Done h' \<longrightarrow>
             username (mem h' c) = '''')"
proof (intro conjI allI impI)
  assume "has_room (mem h c)"
  then show "\<exists>h' tr. run_broadcast h m = Done (h', tr)
               \<and> buf (send (mem h' c)) = buf (send (mem h c)) @ [m]
               \<and> c \<in> set (clients h')"
    by (rule run_broadcast_room [OF assms(1,2)])
next
  show g: "getOnlineUsers h = getOnlineUsers (h\<lparr>clients := removeAll c (clients h)\<rparr>)"
    by (rule getOnlineUsers_drop_unjoined [OF assms(3), symmetric])
  show "api_users h = api_users (h\<lparr>clients := removeAll c (clients h)\<rparr>)"
    by (simp add: api_users_def g [symmetric])
  show "'''' \<notin> set (getOnlineUsers h)"
    by (simp add: getOnlineUsers_eq)
next
  fix h0 p
  show "\<exists>h1. handleWebSocket h0 p = Done h1 \<and> username (mem h1 p) = ''''
               \<and> p \<in> set (clients h1) \<and> has_room (mem h1 p)
               \<and> \<not> is_closed (send (mem h1 p))"
    by (simp add: handleWebSocket_def run_register_def new_client_def make_chan_def has_room_def)
next
  fix wsMsg up sent h'
  assume "Type wsMsg \<noteq> ''join'' \<and> readPump_frame h c wsMsg up sent = Done h'"
  then show "username (mem h' c) = ''''"
    using readPump_frame_username [of wsMsg h c up sent h'] assms(3) by simp
qed

text \<open>
  C10 as stated fails: the client at address 1 has not joined and is in the map; its queue
  is full, and the broadcast of a notice closes the queue and deletes the client instead
  of sending it the notice.
\<close>

theorem unjoined_client_in_hub_not_in_list_counterexample:
  "username (mem hub_new_full 1) = '''' \<and> 1 \<in> set (clients hub_new_full)
   \<and> trace_of (run_broadcast hub_new_full (userJoinMsg ''A'')) =
       [HRLock, ChanClose 1, MapRemove 1, HRUnlock]
   \<and> queue_after (hub_after (run_broadcast hub_new_full (userJoinMsg ''A''))) 1 =
       replicate 256 (userJoinMsg ''Z'')
   \<and> userJoinMsg ''A''
        \<notin> set (queue_after (hub_after (run_broadcast hub_new_full (userJoinMsg ''A''))) 1)"
proof -
  have a: "username (mem hub_new_full 1) = ''''" "1 \<in> set (clients hub_new_full)"
    by (simp_all add: hub_new_full_def new_client_def)
  have b: "queue_after (hub_after (run_broadcast hub_new_full (userJoinMsg ''A''))) 1 =
       replicate 256 (userJoinMsg ''Z'')"
    unfolding run_broadcast_hub_new_full
    by (simp add: queue_after_def hub_after_def full_chan_def)
  have c: "userJoinMsg ''A'' \<notin> set (replicate 256 (userJoinMsg ''Z''))"
    by (simp add: userJoinMsg_def)
  have d: "trace_of (run_broadcast hub_new_full (userJoinMsg ''A'')) =
       [HRLock, ChanClose 1, MapRemove 1, HRUnlock]"
    unfolding run_broadcast_hub_new_full by (simp add: trace_of_def)
  from a b c d show ?thesis by simp
qed

theorem unjoined_client_in_hub_not_in_list_witness:
  "hub_ok hub_AB \<and> 1 \<in> set (clients hub_AB) \<and> username (mem hub_AB 1) = ''''
   \<and> has_room (mem hub_AB 1)
   \<and> (\<exists>h' tr. run_broadcast hub_AB (userJoinMsg ''C'') = Done (h', tr)
         \<and> buf (send (mem h' 1)) = [userJoinMsg ''C'']
         \<and> 1 \<in> set (clients h'))
   \<and> getOnlineUsers hub_AB = [''B'']
   \<and> api_users hub_AB = JObject [(''count'', JNumber 1), (''users'', JArray [JString ''B''])]"
proof -
  have a: "1 \<in> set (clients hub_AB)" "username (mem hub_AB 1) = ''''"
    by (simp_all add: hub_AB_def new_client_def)
  have r: "has_room (mem hub_AB 1)"
    by (simp add: has_room_def hub_AB_def new_client_def make_chan_def)
  have e: "buf (send (mem hub_AB 1)) = []"
    by (simp add: hub_AB_def new_client_def make_chan_def)
  note t = unjoined_client_in_hub_not_in_list [OF hub_AB_ok a, of "userJoinMsg ''C''"]
  from t r have "\<exists>h' tr. run_broadcast hub_AB (userJoinMsg ''C'') = Done (h', tr)
         \<and> buf (send (mem h' 1)) = buf (send (mem hub_AB 1)) @ [userJoinMsg ''C'']
         \<and> 1 \<in> set (clients h')"
    by blast
  then have b: "\<exists>h' tr. run_broadcast hub_AB (userJoinMsg ''C'') = Done (h', tr)
         \<and> buf (send (mem h' 1)) = [userJoinMsg ''C'']
         \<and> 1 \<in> set (clients h')"
    using e by simp
  have g0: "getOnlineUsers (hub_AB\<lparr>clients := removeAll 1 (clients hub_AB)\<rparr>) = [''B'']"
    by (simp add: getOnlineUsers_def hub_AB_def client_B_def)
  from t have "getOnlineUsers hub_AB = getOnlineUsers (hub_AB\<lparr>clients := removeAll 1 (clients hub_AB)\<rparr>)"
    by blast
  with g0 have g: "getOnlineUsers hub_AB = [''B'']" by simp
  have u: "api_users hub_AB = JObject [(''count'', JNumber 1), (''users'', JArray [JString ''B''])]"
    by (simp add: api_users_def g)
  from hub_AB_ok a r b g u show ?thesis by blast
qed

end
